theory Spec2Isabelle
  imports Main "HOL-Library.Word"
begin

unbundle bit_operations_syntax

section \<open>Python values used by the codecs of \<open>clickhouse_connect/datatypes/special.py\<close>\<close>

type_synonym byte = "8 word"
type_synonym bytes = "byte list"

text \<open>Every \<open>raise\<close> of the module and every exception of a Python primitive it calls.\<close>

datatype error =
    TypeError
  | ValueError
  | OverflowError
  | StructError
  | UnicodeDecodeError
  | UnicodeEncodeError
  | LookupError
  | IndexError
  | RecursionError
  | DriverError string
  | NotSupportedError string

subsection \<open>Slicing\<close>

text \<open>
  \<open>source[i:j]\<close> never raises: a negative index counts from the end, and both indices are
  clamped to the length of the sequence.
\<close>

definition slice_index :: "nat \<Rightarrow> int \<Rightarrow> nat" where
  "slice_index n i = (if i < 0 then nat (max 0 (i + int n)) else min (nat i) n)"

definition py_slice :: "'a list \<Rightarrow> int \<Rightarrow> int \<Rightarrow> 'a list" where
  "py_slice xs i j =
     (let lo = slice_index (length xs) i; hi = slice_index (length xs) j
      in take (hi - lo) (drop lo xs))"

subsection \<open>\<open>int.from_bytes\<close> and \<open>int.to_bytes\<close>\<close>

datatype byteorder = little | big

fun from_bytes_little :: "bytes \<Rightarrow> int" where
  "from_bytes_little [] = 0"
| "from_bytes_little (b # bs) = uint b + 256 * from_bytes_little bs"

definition from_bytes :: "bytes \<Rightarrow> byteorder \<Rightarrow> int" where
  "from_bytes bs order =
     (case order of little \<Rightarrow> from_bytes_little bs | big \<Rightarrow> from_bytes_little (rev bs))"

fun to_bytes_little :: "nat \<Rightarrow> int \<Rightarrow> bytes" where
  "to_bytes_little 0 n = []"
| "to_bytes_little (Suc k) n = word_of_int (n mod 256) # to_bytes_little k (n div 256)"

text \<open>\<open>n.to_bytes(len, order)\<close> raises OverflowError for a negative \<open>n\<close> and for one too big.\<close>

definition to_bytes :: "int \<Rightarrow> nat \<Rightarrow> byteorder \<Rightarrow> error + bytes" where
  "to_bytes n len order =
     (if n < 0 \<or> 256 ^ len \<le> n then Inl OverflowError
      else Inr (case order of little \<Rightarrow> to_bytes_little len n
                | big \<Rightarrow> rev (to_bytes_little len n)))"

subsection \<open>\<open>uuid.UUID\<close>\<close>

datatype SafeUUID = safe | unsafe | unknown

record PyUUID =
  uuid_int :: int
  is_safe :: SafeUUID

text \<open>\<open>PyUUID(bytes=b)\<close>: sixteen bytes, read big-endian; \<open>is_safe\<close> defaults to unknown.\<close>

definition PyUUID_bytes :: "bytes \<Rightarrow> error + PyUUID" where
  "PyUUID_bytes b =
     (if length b \<noteq> 16 then Inl ValueError
      else Inr \<lparr>uuid_int = from_bytes b big, is_safe = unknown\<rparr>)"

text \<open>The property \<open>value.bytes\<close>.\<close>

definition uuid_bytes :: "PyUUID \<Rightarrow> error + bytes" where
  "uuid_bytes u = to_bytes (uuid_int u) 16 big"

text \<open>\<open>UUID.__eq__\<close> compares the integers only.\<close>

definition uuid_eq :: "PyUUID \<Rightarrow> PyUUID \<Rightarrow> bool" where
  "uuid_eq a b = (uuid_int a = uuid_int b)"

subsection \<open>\<open>struct.unpack_from\<close> with the format \<open><nQ\<close>\<close>

text \<open>
  \<open>unpack_from(f'<{cnt}Q', buffer, offset)\<close>: a negative count is a bad format; a negative
  offset counts from the end; the buffer must hold \<open>8 * cnt\<close> bytes from the offset on.
\<close>

definition unpack_from_Q :: "int \<Rightarrow> bytes \<Rightarrow> int \<Rightarrow> error + int list" where
  "unpack_from_Q cnt buffer offset =
     (if cnt < 0 then Inl StructError
      else let n = int (length buffer) in
        if offset < 0 \<and> offset + n < 0 then Inl StructError
        else let off = (if offset < 0 then offset + n else offset) in
          if n - off < 8 * cnt then Inl StructError
          else Inr (map (\<lambda>i. from_bytes_little (take 8 (drop (nat off + 8 * i) buffer)))
                      [0..<nat cnt]))"

section \<open>class UUID\<close>

definition UUID_from_row_binary :: "bytes \<Rightarrow> int \<Rightarrow> error + (PyUUID \<times> int)" where
  "UUID_from_row_binary source loc =
     (let int_high = from_bytes (py_slice source loc (loc + 8)) little;
          int_low = from_bytes (py_slice source (loc + 8) (loc + 16)) little
      in case to_bytes int_high 8 big of
           Inl e \<Rightarrow> Inl e
         | Inr bh \<Rightarrow>
             (case to_bytes int_low 8 big of
                Inl e \<Rightarrow> Inl e
              | Inr bl \<Rightarrow>
                  (case PyUUID_bytes (bh @ bl) of
                     Inl e \<Rightarrow> Inl e
                   | Inr u \<Rightarrow> Inr (u, loc + 16))))"

definition UUID_to_row_binary :: "PyUUID \<Rightarrow> bytes \<Rightarrow> error + bytes" where
  "UUID_to_row_binary v dest =
     (case uuid_bytes v of
        Inl e \<Rightarrow> Inl e
      | Inr source \<Rightarrow>
          (let bytes_high = take 8 source; bytes_low = drop 8 source
           in Inr (dest @ (rev bytes_high @ rev bytes_low))))"

definition UUID_from_native :: "bytes \<Rightarrow> int \<Rightarrow> int \<Rightarrow> bool \<Rightarrow> error + (PyUUID list \<times> int)" where
  "UUID_from_native source loc num_rows must_swap =
     (case unpack_from_Q (num_rows * 2) source loc of
        Inl e \<Rightarrow> Inl e
      | Inr v \<Rightarrow>
          Inr (map (\<lambda>ix. let s = 2 * ix
                         in \<lparr>uuid_int = push_bit 64 (v ! s) OR v ! (s + 1), is_safe = unsafe\<rparr>)
                 [0..<nat num_rows],
               loc + num_rows * 16))"


text \<open>
  Specification side of the bulk path: the little-endian 64-bit word at a position, and the
  row-oriented decode applied \<open>n\<close> times, each call starting where the previous one stopped.
\<close>

definition le_word64_at :: "bytes \<Rightarrow> int \<Rightarrow> int" where
  "le_word64_at source p = from_bytes (py_slice source p (p + 8)) little"

definition bulk_uuid_at :: "bytes \<Rightarrow> int \<Rightarrow> PyUUID" where
  "bulk_uuid_at source p =
     \<lparr>uuid_int = push_bit 64 (le_word64_at source p) OR le_word64_at source (p + 8),
      is_safe = unsafe\<rparr>"

fun UUID_rows_sequential :: "bytes \<Rightarrow> int \<Rightarrow> nat \<Rightarrow> error + (PyUUID list \<times> int)" where
  "UUID_rows_sequential source loc 0 = Inr ([], loc)"
| "UUID_rows_sequential source loc (Suc n) =
     (case UUID_from_row_binary source loc of
        Inl e \<Rightarrow> Inl e
      | Inr (u, loc') \<Rightarrow>
          (case UUID_rows_sequential source loc' n of
             Inl e \<Rightarrow> Inl e
           | Inr (us, loc'') \<Rightarrow> Inr (u # us, loc'')))"

section \<open>class FixedString and \<open>fixed_string_format\<close>\<close>

text \<open>
  A decoded value is a \<open>bytes\<close> object or a \<open>str\<close> (a HOL string: code points below
  256). The text codecs behind
  \<open>bytes.decode(encoding)\<close> and \<open>str.encode(encoding)\<close> belong to the Python library, not to
  the module: they are parameters, indexed by the encoding name.
\<close>

datatype fs_value = Bytes bytes | Str string

record text_codecs =
  bytes_decode :: "string \<Rightarrow> bytes \<Rightarrow> error + string"
  str_encode :: "string \<Rightarrow> string \<Rightarrow> error + bytes"

text \<open>
  The class attributes \<open>_transform\<close> and \<open>_encode_error\<close> hold one of the module's functions
  wrapped as \<open>staticmethod\<close> or \<open>classmethod\<close>. The wrapper decides the arguments of the call
  \<open>x._attr(value)\<close>: a static method receives \<open>(value)\<close>, a class method \<open>(cls, value)\<close>.
  The functions: \<open>_fixed_string_binary(value)\<close>, \<open>_fixed_string_decode(cls, value)\<close>,
  \<open>_hex_string(cls, value)\<close> and the anonymous \<open>lambda cls: '<binary data>'\<close>.
\<close>

datatype wrapper = staticmethod | classmethod

datatype fs_function = fixed_string_binary | fixed_string_decode | hex_string | binary_data_lambda

record FixedString_cls =
  fs_encoding :: string
  fs_transform :: "wrapper \<times> fs_function"
  fs_encode_error :: "wrapper \<times> fs_function"

definition FixedString_default :: FixedString_cls where
  "FixedString_default =
     \<lparr>fs_encoding = ''utf8'',
      fs_transform = (staticmethod, fixed_string_binary),
      fs_encode_error = (staticmethod, fixed_string_binary)\<rparr>"

definition passed_args :: "wrapper \<Rightarrow> nat" where
  "passed_args w = (case w of staticmethod \<Rightarrow> 1 | classmethod \<Rightarrow> 2)"

definition parameters :: "fs_function \<Rightarrow> nat" where
  "parameters f =
     (case f of fixed_string_binary \<Rightarrow> 1 | fixed_string_decode \<Rightarrow> 2
      | hex_string \<Rightarrow> 2 | binary_data_lambda \<Rightarrow> 1)"

definition hex_digit :: "nat \<Rightarrow> char" where
  "hex_digit d = ''0123456789abcdef'' ! d"

definition hexlify :: "bytes \<Rightarrow> string" where
  "hexlify value = concat (map (\<lambda>b. [hex_digit (unat b div 16), hex_digit (unat b mod 16)]) value)"

text \<open>
  \<open>cls._encode_error(value)\<close>, called in the handler of \<open>_fixed_string_decode\<close> after
  \<open>value\<close> failed to decode. A call with the wrong number of arguments is a TypeError.
  Were the attribute \<open>_fixed_string_decode\<close> itself, the same failure would recur without end.
\<close>

definition call_encode_error :: "FixedString_cls \<Rightarrow> bytes \<Rightarrow> error + fs_value" where
  "call_encode_error cls value =
     (case fs_encode_error cls of (w, f) \<Rightarrow>
        if passed_args w \<noteq> parameters f then Inl TypeError
        else (case f of
                fixed_string_binary \<Rightarrow> Inr (Bytes value)
              | hex_string \<Rightarrow> Inr (Str (hexlify value))
              | binary_data_lambda \<Rightarrow> Inr (Str ''<binary data>'')
              | fixed_string_decode \<Rightarrow> Inl RecursionError))"

definition fixed_string_decode_fn ::
    "text_codecs \<Rightarrow> FixedString_cls \<Rightarrow> bytes \<Rightarrow> error + fs_value" where
  "fixed_string_decode_fn codecs cls value =
     (case bytes_decode codecs (fs_encoding cls) value of
        Inr s \<Rightarrow> Inr (Str s)
      | Inl e \<Rightarrow> if e = UnicodeDecodeError then call_encode_error cls value else Inl e)"

text \<open>\<open>self._transform(value)\<close>.\<close>

definition call_transform :: "text_codecs \<Rightarrow> FixedString_cls \<Rightarrow> bytes \<Rightarrow> error + fs_value" where
  "call_transform codecs cls value =
     (case fs_transform cls of (w, f) \<Rightarrow>
        if passed_args w \<noteq> parameters f then Inl TypeError
        else (case f of
                fixed_string_binary \<Rightarrow> Inr (Bytes value)
              | hex_string \<Rightarrow> Inr (Str (hexlify value))
              | binary_data_lambda \<Rightarrow> Inr (Str ''<binary data>'')
              | fixed_string_decode \<Rightarrow> fixed_string_decode_fn codecs cls value))"

record FixedString =
  cls :: FixedString_cls
  size :: nat

definition FixedString_from_row_binary ::
    "text_codecs \<Rightarrow> FixedString \<Rightarrow> bytes \<Rightarrow> int \<Rightarrow> error + (fs_value \<times> int)" where
  "FixedString_from_row_binary codecs self source loc =
     (case call_transform codecs (cls self) (py_slice source loc (loc + int (size self))) of
        Inl e \<Rightarrow> Inl e
      | Inr v \<Rightarrow> Inr (v, loc + int (size self)))"

definition FixedString_to_row_binary ::
    "text_codecs \<Rightarrow> FixedString \<Rightarrow> fs_value \<Rightarrow> bytes \<Rightarrow> error + bytes" where
  "FixedString_to_row_binary codecs self v dest =
     (case v of
        Str s \<Rightarrow>
          (case str_encode codecs (fs_encoding (cls self)) s of
             Inl e \<Rightarrow> Inl e
           | Inr b \<Rightarrow> Inr (dest @ b))
      | Bytes b \<Rightarrow> Inr (dest @ b))"

definition FixedString_from_native ::
    "FixedString \<Rightarrow> bytes \<Rightarrow> int \<Rightarrow> int \<Rightarrow> bool \<Rightarrow> bytes list \<times> int" where
  "FixedString_from_native self source loc num_rows must_swap =
     (let sz = int (size self)
      in (map (\<lambda>ix. py_slice source (loc + int ix * sz) (loc + int ix * sz + sz))
            [0..<nat num_rows],
          loc + sz * num_rows))"

definition fixed_string_format ::
    "string \<Rightarrow> string \<Rightarrow> string \<Rightarrow> FixedString_cls \<Rightarrow> FixedString_cls" where
  "fixed_string_format method encoding encoding_error c =
     (if method = ''binary'' then c\<lparr>fs_transform := (staticmethod, fixed_string_binary)\<rparr>
      else if method = ''decode'' then
        c\<lparr>fs_encoding := encoding,
          fs_transform := (classmethod, fixed_string_decode),
          fs_encode_error :=
            (if encoding_error = ''hex'' then (classmethod, hex_string)
             else (classmethod, binary_data_lambda))\<rparr>
      else if method = ''hex'' then c\<lparr>fs_transform := (staticmethod, hex_string)\<rparr>
      else c)"

text \<open>
  A text codec library knowing the \<open>ascii\<close> encoding only, to run the definitions on
  concrete input: a byte or character above 127 is not ASCII.
\<close>

definition ascii_codecs :: text_codecs where
  "ascii_codecs =
     \<lparr>bytes_decode = (\<lambda>enc value.
        if enc \<noteq> ''ascii'' then Inl LookupError
        else if list_all (\<lambda>b. unat b < 128) value
          then Inr (map (\<lambda>b. char_of (unat b)) value)
          else Inl UnicodeDecodeError),
      str_encode = (\<lambda>enc s.
        if enc \<noteq> ''ascii'' then Inl LookupError
        else if list_all (\<lambda>c. of_char c < (128 :: nat)) s
          then Inr (map (\<lambda>c. of_nat (of_char c)) s)
          else Inl UnicodeEncodeError)\<rparr>"

section \<open>class Nothing\<close>

text \<open>
  \<open>_from_row_binary\<close> is declared \<open>@staticmethod def _from_row_binary(self, source, loc)\<close>:
  a function of three positional parameters that returns \<open>None\<close> and its third argument;
  a call with any other number of arguments is a TypeError. A static method receives the
  arguments of the call and nothing else, and a decoder is called with \<open>(source, loc)\<close>, as
  the array, tuple, map and aggregate codecs of the module call their sub-codecs.
  \<open>_to_row_binary\<close> is an ordinary method \<open>(self, value, dest)\<close> whose body is \<open>pass\<close>: the call
  \<open>x._to_row_binary(value, dest)\<close> binds \<open>self\<close> and leaves \<open>dest\<close> as it is.
\<close>

datatype argument = Instance | Buffer bytes | Position int

definition Nothing_from_row_binary_function ::
    "argument list \<Rightarrow> error + ('v option \<times> argument)" where
  "Nothing_from_row_binary_function args =
     (case args of [self, source, loc] \<Rightarrow> Inr (None, loc) | _ \<Rightarrow> Inl TypeError)"

definition Nothing_from_row_binary :: "bytes \<Rightarrow> int \<Rightarrow> error + ('v option \<times> argument)" where
  "Nothing_from_row_binary source loc =
     Nothing_from_row_binary_function [Buffer source, Position loc]"

definition Nothing_to_row_binary :: "'self \<Rightarrow> 'v \<Rightarrow> bytes \<Rightarrow> bytes" where
  "Nothing_to_row_binary self v dest = dest"

section \<open>The codecs handed out by the registry\<close>

text \<open>
  \<open>get_from_name\<close>, \<open>ClickHouseType.__init__\<close>, \<open>read_leb128\<close> and \<open>to_leb128\<close> are
  imported from other modules: they are parameters of the composite codecs. A codec
  instance is seen through the attributes this module reads; \<open>is_Array\<close> stands for
  \<open>isinstance(x, Array)\<close>.
\<close>

record TypeDef =
  td_values :: "string list"
  td_arg_str :: string

record 'v ClickHouseType =
  is_Array :: bool
  nullable :: bool
  from_row_binary :: "bytes \<Rightarrow> int \<Rightarrow> error + ('v \<times> int)"
  to_row_binary :: "'v \<Rightarrow> bytes \<Rightarrow> error + bytes"
  from_native :: "bytes \<Rightarrow> int \<Rightarrow> int \<Rightarrow> bool \<Rightarrow> error + ('v list \<times> int)"
  to_python :: "('v list \<Rightarrow> error + 'v list) option"

type_synonym 'v registry = "string \<Rightarrow> error + 'v ClickHouseType"
type_synonym leb128_reader = "bytes \<Rightarrow> int \<Rightarrow> error + (nat \<times> int)"

section \<open>class Array\<close>

record 'v Array =
  element_type :: "'v ClickHouseType"
  name_suffix :: string

definition Array_init ::
    "(TypeDef \<Rightarrow> error + unit) \<Rightarrow> 'v registry \<Rightarrow> TypeDef \<Rightarrow> error + 'v Array" where
  "Array_init super_init get_from_name type_def =
     (case super_init type_def of
        Inl e \<Rightarrow> Inl e
      | Inr _ \<Rightarrow>
          (case td_values type_def of
             [] \<Rightarrow> Inl IndexError
           | name # _ \<Rightarrow>
               (case get_from_name name of
                  Inl e \<Rightarrow> Inl e
                | Inr et \<Rightarrow>
                    if is_Array et then Inl (DriverError ''Nested arrays not supported'')
                    else Inr \<lparr>element_type = et, name_suffix = td_arg_str type_def\<rparr>)))"

text \<open>The loop \<open>for x in range(size): value, loc = conv(source, loc); values.append(value)\<close>.\<close>

fun decode_values ::
    "(bytes \<Rightarrow> int \<Rightarrow> error + ('v \<times> int)) \<Rightarrow> bytes \<Rightarrow> nat \<Rightarrow> int \<Rightarrow> error + ('v list \<times> int)" where
  "decode_values conv source 0 loc = Inr ([], loc)"
| "decode_values conv source (Suc n) loc =
     (case conv source loc of
        Inl e \<Rightarrow> Inl e
      | Inr (v, loc') \<Rightarrow>
          (case decode_values conv source n loc' of
             Inl e \<Rightarrow> Inl e
           | Inr (vs, loc'') \<Rightarrow> Inr (v # vs, loc'')))"

definition Array_from_row_binary ::
    "leb128_reader \<Rightarrow> 'v Array \<Rightarrow> bytes \<Rightarrow> int \<Rightarrow> error + ('v list \<times> int)" where
  "Array_from_row_binary read_leb128 self source loc =
     (case read_leb128 source loc of
        Inl e \<Rightarrow> Inl e
      | Inr (sz, loc') \<Rightarrow> decode_values (from_row_binary (element_type self)) source sz loc')"



text \<open>
  \<open>array.array('Q')\<close>: \<open>frombytes\<close> reads items of eight bytes in the byte order of the
  host and raises ValueError unless the length is a multiple of eight; \<open>byteswap\<close> reverses
  the bytes of every item.
\<close>

definition array_Q_frombytes :: "byteorder \<Rightarrow> bytes \<Rightarrow> error + int list" where
  "array_Q_frombytes host bs =
     (if length bs mod 8 \<noteq> 0 then Inl ValueError
      else Inr (map (\<lambda>i. from_bytes (take 8 (drop (8 * i) bs)) host) [0..<length bs div 8]))"

definition byteswap_Q :: "int \<Rightarrow> int" where
  "byteswap_Q x = from_bytes_little (rev (to_bytes_little 8 x))"

text \<open>
  The loop over the offsets: \<open>cnt = offset - last\<close> (here \<open>last_offset\<close>), the element codec's bulk decode of
  \<open>cnt\<close> values at the current position, \<open>to_python\<close> when the element codec has one.
\<close>

fun Array_rows ::
    "'v ClickHouseType \<Rightarrow> bytes \<Rightarrow> bool \<Rightarrow> int \<Rightarrow> int \<Rightarrow> int list \<Rightarrow> error + ('v list list \<times> int)" where
  "Array_rows et source must_swap last_offset loc [] = Inr ([], loc)"
| "Array_rows et source must_swap last_offset loc (offset # offsets) =
     (let cnt = offset - last_offset in
      case from_native et source loc cnt must_swap of
        Inl e \<Rightarrow> Inl e
      | Inr (val_list, loc') \<Rightarrow>
          (case (case to_python et of None \<Rightarrow> Inr val_list | Some conv_py \<Rightarrow> conv_py val_list) of
             Inl e \<Rightarrow> Inl e
           | Inr val_list' \<Rightarrow>
               (case Array_rows et source must_swap offset loc' offsets of
                  Inl e \<Rightarrow> Inl e
                | Inr (column, loc'') \<Rightarrow> Inr (val_list' # column, loc''))))"

definition Array_from_native ::
    "byteorder \<Rightarrow> 'v Array \<Rightarrow> bytes \<Rightarrow> int \<Rightarrow> int \<Rightarrow> bool \<Rightarrow> error + ('v list list \<times> int)" where
  "Array_from_native host self source loc num_rows must_swap =
     (let sz = num_rows * 8 in
      case array_Q_frombytes host (py_slice source loc (loc + sz)) of
        Inl e \<Rightarrow> Inl e
      | Inr offsets \<Rightarrow>
          Array_rows (element_type self) source must_swap 0 (loc + sz)
            (if must_swap then map byteswap_Q offsets else offsets))"

text \<open>Specification side: the element count of every row, from the cumulative offsets.\<close>

definition row_counts :: "int list \<Rightarrow> int list" where
  "row_counts offsets = map2 (\<lambda>offset previous. offset - previous) offsets (0 # offsets)"

section \<open>class Tuple\<close>






section \<open>class Map\<close>

text \<open>
  A dict keeps its items in insertion order; \<open>values[key] = value\<close> replaces the value of a
  key already there and appends a new key. \<open>_to_row_binary\<close> takes no \<open>dest\<close>: it calls the
  sub-codecs' encoders with one argument and extends its own buffer with what they return,
  and it hands the key to both of them.
\<close>

fun dict_setitem :: "('k \<times> 'v) list \<Rightarrow> 'k \<Rightarrow> 'v \<Rightarrow> ('k \<times> 'v) list" where
  "dict_setitem [] key v = [(key, v)]"
| "dict_setitem ((k, w) # items) key v =
     (if k = key then (k, v) # items else (k, w) # dict_setitem items key v)"

record ('k, 'v) Map =
  key_from_rb :: "bytes \<Rightarrow> int \<Rightarrow> error + ('k \<times> int)"
  key_to_rb :: "'k \<Rightarrow> error + bytes"
  value_from_rb :: "bytes \<Rightarrow> int \<Rightarrow> error + ('v \<times> int)"
  value_to_rb :: "'k \<Rightarrow> error + bytes"

fun Map_decode ::
    "('k, 'v) Map \<Rightarrow> bytes \<Rightarrow> nat \<Rightarrow> int \<Rightarrow> ('k \<times> 'v) list \<Rightarrow> error + (('k \<times> 'v) list \<times> int)" where
  "Map_decode self source 0 loc vals = Inr (vals, loc)"
| "Map_decode self source (Suc n) loc vals =
     (case key_from_rb self source loc of
        Inl e \<Rightarrow> Inl e
      | Inr (key, loc') \<Rightarrow>
          (case value_from_rb self source loc' of
             Inl e \<Rightarrow> Inl e
           | Inr (v, loc'') \<Rightarrow> Map_decode self source n loc'' (dict_setitem vals key v)))"

definition Map_from_row_binary ::
    "leb128_reader \<Rightarrow> ('k, 'v) Map \<Rightarrow> bytes \<Rightarrow> int \<Rightarrow> error + (('k \<times> 'v) list \<times> int)" where
  "Map_from_row_binary read_leb128 self source loc =
     (case read_leb128 source loc of
        Inl e \<Rightarrow> Inl e
      | Inr (sz, loc') \<Rightarrow> Map_decode self source sz loc' [])"

fun Map_encode :: "('k, 'v) Map \<Rightarrow> ('k \<times> 'v) list \<Rightarrow> bytes \<Rightarrow> error + bytes" where
  "Map_encode self [] ret = Inr ret"
| "Map_encode self ((key, v) # items) ret =
     (case key_to_rb self key of
        Inl e \<Rightarrow> Inl e
      | Inr kb \<Rightarrow>
          (case value_to_rb self key of
             Inl e \<Rightarrow> Inl e
           | Inr vb \<Rightarrow> Map_encode self items ((ret @ kb) @ vb)))"

definition Map_to_row_binary :: "('k, 'v) Map \<Rightarrow> ('k \<times> 'v) list \<Rightarrow> error + bytes" where
  "Map_to_row_binary self vals = Map_encode self vals []"

section \<open>Concrete inputs\<close>

definition example_uuid :: PyUUID where
  "example_uuid = \<lparr>uuid_int = 0x00112233445566778899aabbccddeeff, is_safe = unknown\<rparr>"

definition two_uuid_buffer :: bytes where
  "two_uuid_buffer =
     [0xAB,
      0x77, 0x66, 0x55, 0x44, 0x33, 0x22, 0x11, 0x00, 0xff, 0xee, 0xdd, 0xcc, 0xbb, 0xaa, 0x99, 0x88,
      0x01, 0x00, 0x00, 0x00, 0x00, 0x00, 0x00, 0x00, 0x02, 0x00, 0x00, 0x00, 0x00, 0x00, 0x00, 0x00]"

definition abcdef :: bytes where
  "abcdef = [0x61, 0x62, 0x63, 0x64, 0x65, 0x66]"

text \<open>
  Modelled from the spec: the length-prefix primitive (\<open>read_leb128\<close> and \<open>to_leb128\<close> of
  \<open>clickhouse_connect.driver.rowbinary\<close>, a module outside the sources), which "encodes and
  decodes a non-negative integer count as a variable-length byte sequence": LEB128, seven
  bits a byte, the low group first, the high bit set on every byte but the last. The
  theorems take the reader and the writer as parameters; this pair runs them on concrete
  input.
\<close>

fun to_leb128_model :: "nat \<Rightarrow> bytes" where
  "to_leb128_model n =
     (if n < 128 then [of_nat n] else of_nat (128 + n mod 128) # to_leb128_model (n div 128))"

declare to_leb128_model.simps [simp del]

fun read_leb128_bytes :: "bytes \<Rightarrow> (nat \<times> nat) option" where
  "read_leb128_bytes [] = None"
| "read_leb128_bytes (b # bs) =
     (if unat b < 128 then Some (unat b, 1)
      else (case read_leb128_bytes bs of
              None \<Rightarrow> None
            | Some (v, k) \<Rightarrow> Some (unat b - 128 + 128 * v, Suc k)))"

definition read_leb128_model :: leb128_reader where
  "read_leb128_model source loc =
     (if loc < 0 then Inl IndexError
      else (case read_leb128_bytes (drop (nat loc) source) of
              None \<Rightarrow> Inl IndexError
            | Some (v, k) \<Rightarrow> Inr (v, loc + int k)))"

text \<open>
  A codec of one unsigned byte, as the registry hands out for a numeric type of another
  module, in the two calling conventions the module uses for encoders: appending to
  \<open>dest\<close>, and returning the bytes.
\<close>

definition byte_from_rb :: "bytes \<Rightarrow> int \<Rightarrow> error + (byte \<times> int)" where
  "byte_from_rb source loc =
     (if 0 \<le> loc \<and> loc < int (length source) then Inr (source ! nat loc, loc + 1)
      else Inl IndexError)"

definition byte_to_rb :: "byte \<Rightarrow> error + bytes" where
  "byte_to_rb b = Inr [b]"

definition byte_Map :: "(byte, byte) Map" where
  "byte_Map =
     \<lparr>key_from_rb = byte_from_rb, key_to_rb = byte_to_rb,
      value_from_rb = byte_from_rb, value_to_rb = byte_to_rb\<rparr>"

text \<open>A registry knowing \<open>UUID\<close> and, as an array type, \<open>Array(UUID)\<close>.\<close>

definition UUID_type :: "PyUUID ClickHouseType" where
  "UUID_type =
     \<lparr>is_Array = False, nullable = False,
      from_row_binary = UUID_from_row_binary, to_row_binary = UUID_to_row_binary,
      from_native = UUID_from_native, to_python = None\<rparr>"

definition uuid_registry :: "PyUUID registry" where
  "uuid_registry name =
     (if name = ''UUID'' then Inr UUID_type
      else if name = ''Array(UUID)'' then Inr (UUID_type\<lparr>is_Array := True\<rparr>)
      else Inl (DriverError ''Unrecognized ClickHouse type''))"

text \<open>
  Specification side of the array bulk path. The offsets on the wire: word \<open>i\<close> of the
  \<open>n\<close> 64-bit words from \<open>loc\<close> on, read in the byte order of the host, or in the other
  order when a swap is requested. The rows in order: one bulk decode of the element codec
  per count, each starting where the previous one stopped.
\<close>

definition opposite :: "byteorder \<Rightarrow> byteorder" where
  "opposite order = (case order of little \<Rightarrow> big | big \<Rightarrow> little)"

definition wire_offsets :: "byteorder \<Rightarrow> bool \<Rightarrow> bytes \<Rightarrow> int \<Rightarrow> nat \<Rightarrow> int list" where
  "wire_offsets host must_swap source loc n =
     map (\<lambda>i. from_bytes (take 8 (drop (nat loc + 8 * i) source))
                 (if must_swap then opposite host else host))
       [0..<n]"

fun rows_in_order ::
    "'v ClickHouseType \<Rightarrow> bytes \<Rightarrow> bool \<Rightarrow> int \<Rightarrow> int list \<Rightarrow> error + ('v list list \<times> int)" where
  "rows_in_order et source must_swap loc [] = Inr ([], loc)"
| "rows_in_order et source must_swap loc (cnt # cnts) =
     (case from_native et source loc cnt must_swap of
        Inl e \<Rightarrow> Inl e
      | Inr (val_list, loc') \<Rightarrow>
          (case (case to_python et of None \<Rightarrow> Inr val_list | Some conv_py \<Rightarrow> conv_py val_list) of
             Inl e \<Rightarrow> Inl e
           | Inr val_list' \<Rightarrow>
               (case rows_in_order et source must_swap loc' cnts of
                  Inl e \<Rightarrow> Inl e
                | Inr (column, loc'') \<Rightarrow> Inr (val_list' # column, loc''))))"

text \<open>The fixed-width string codec as the registry hands it out.\<close>

definition FixedString_type :: "text_codecs \<Rightarrow> FixedString \<Rightarrow> fs_value ClickHouseType" where
  "FixedString_type codecs self =
     \<lparr>is_Array = False, nullable = False,
      from_row_binary = FixedString_from_row_binary codecs self,
      to_row_binary = FixedString_to_row_binary codecs self,
      from_native = (\<lambda>source loc num_rows must_swap.
        case FixedString_from_native self source loc num_rows must_swap of
          (column, loc') \<Rightarrow> Inr (map Bytes column, loc')),
      to_python = None\<rparr>"

definition offsets_2_2_5_abcde :: bytes where
  "offsets_2_2_5_abcde =
     [2, 0, 0, 0, 0, 0, 0, 0,
      2, 0, 0, 0, 0, 0, 0, 0,
      5, 0, 0, 0, 0, 0, 0, 0,
      0x61, 0x62, 0x63, 0x64, 0x65]"

definition FixedString_1_array :: "fs_value Array" where
  "FixedString_1_array =
     \<lparr>element_type = FixedString_type ascii_codecs \<lparr>cls = FixedString_default, size = 1\<rparr>,
      name_suffix = ''(FixedString(1))''\<rparr>"






definition uuid_wire :: "PyUUID \<Rightarrow> bytes" where
  "uuid_wire u =
     (let b = rev (to_bytes_little 16 (uuid_int u)) in rev (take 8 b) @ rev (drop 8 b))"




definition tuple_wire :: "('v \<Rightarrow> bytes) list \<Rightarrow> 'v list \<Rightarrow> bytes" where
  "tuple_wire wires vs = concat (map2 (\<lambda>wire v. wire v) wires vs)"










section \<open>Facts about the primitives\<close>

lemma py_slice_nonneg:
  "0 \<le> i \<Longrightarrow> i \<le> j \<Longrightarrow> py_slice xs i j = take (nat (j - i)) (drop (nat i) xs)"
  by (auto simp: py_slice_def slice_index_def Let_def min_def nat_diff_distrib)

lemma from_bytes_little_append:
  "from_bytes_little (xs @ ys) = from_bytes_little xs + 256 ^ length xs * from_bytes_little ys"
  by (induction xs) (auto simp: algebra_simps)

lemma from_bytes_little_range:
  "0 \<le> from_bytes_little bs \<and> from_bytes_little bs < 256 ^ length bs"
proof (induction bs)
  case Nil
  show ?case by simp
next
  case (Cons b bs)
  have b: "0 \<le> uint b" "uint b < 256"
    using uint_lt2p [of b] by simp_all
  from Cons have "from_bytes_little bs + 1 \<le> 256 ^ length bs" by simp
  then have "256 * (from_bytes_little bs + 1) \<le> 256 * 256 ^ length bs"
    by (rule mult_left_mono) simp
  with b Cons show ?case by simp
qed

lemma to_bytes_little_length [simp]: "length (to_bytes_little k n) = k"
  by (induction k arbitrary: n) auto

lemma to_bytes_little_from_bytes_little:
  "to_bytes_little (length bs) (from_bytes_little bs) = bs"
proof (induction bs)
  case Nil
  show ?case by simp
next
  case (Cons b bs)
  have b: "0 \<le> uint b" "uint b < 256"
    using uint_lt2p [of b] by simp_all
  have m: "(uint b + 256 * from_bytes_little bs) mod 256 = uint b"
    using b by simp
  have d: "(uint b + 256 * from_bytes_little bs) div 256 = from_bytes_little bs"
    using b by simp
  have "to_bytes_little (Suc (length bs)) (uint b + 256 * from_bytes_little bs)
      = word_of_int (uint b) # to_bytes_little (length bs) (from_bytes_little bs)"
    unfolding to_bytes_little.simps m d ..
  then show ?case using Cons by simp
qed

lemma from_bytes_little_to_bytes_little:
  "0 \<le> n \<Longrightarrow> n < 256 ^ k \<Longrightarrow> from_bytes_little (to_bytes_little k n) = n"
proof (induction k arbitrary: n)
  case 0
  then show ?case by simp
next
  case (Suc k)
  have "n div 256 < 256 ^ k"
    using Suc.prems by (simp add: div_less_iff_less_mult mult.commute)
  moreover have "0 \<le> n div 256" using Suc.prems by simp
  ultimately have "from_bytes_little (to_bytes_little k (n div 256)) = n div 256"
    by (rule Suc.IH [rotated])
  moreover have "uint (word_of_int (n mod 256) :: byte) = n mod 256"
    by (simp add: uint_word_of_int)
  ultimately show ?case by simp
qed

section \<open>The UUID codec\<close>

lemma to_bytes_big_from_bytes:
  "length h = k \<Longrightarrow> to_bytes (from_bytes_little (rev h)) k big = Inr h"
  using from_bytes_little_range [of "rev h"] to_bytes_little_from_bytes_little [of "rev h"]
  by (auto simp: to_bytes_def)

lemma py_slice_middle:
  "py_slice (pre @ xs @ post) (int (length pre)) (int (length pre) + int (length xs)) = xs"
  by (simp add: py_slice_nonneg)

lemma UUID_from_row_binary_halves:
  assumes "length h = 8" "length l = 8"
  shows "UUID_from_row_binary (pre @ rev h @ rev l @ post) (int (length pre))
       = Inr (\<lparr>uuid_int = from_bytes (h @ l) big, is_safe = unknown\<rparr>, int (length pre) + 16)"
proof -
  have s1: "py_slice (pre @ rev h @ rev l @ post) (int (length pre)) (int (length pre) + 8) = rev h"
    using py_slice_middle [of pre "rev h" "rev l @ post"] assms by simp
  have s2: "py_slice (pre @ rev h @ rev l @ post) (int (length pre) + 8) (int (length pre) + 16) = rev l"
    using py_slice_middle [of "pre @ rev h" "rev l" post] assms by (simp add: ac_simps)
  show ?thesis
    using assms
    by (simp add: UUID_from_row_binary_def s1 s2 from_bytes_def to_bytes_big_from_bytes PyUUID_bytes_def)
qed

lemma UUID_encode_then_decode:
  assumes "0 \<le> uuid_int u" and "uuid_int u < 2 ^ 128"
  defines "b \<equiv> rev (to_bytes_little 16 (uuid_int u))"
  shows "uuid_bytes u = Inr b"
    and "length b = 16"
    and "UUID_to_row_binary u dest = Inr (dest @ rev (take 8 b) @ rev (drop 8 b))"
    and "UUID_from_row_binary (dest @ rev (take 8 b) @ rev (drop 8 b) @ rest) (int (length dest))
           = Inr (u\<lparr>is_safe := unknown\<rparr>, int (length dest) + 16)"
proof -
  show len: "length b = 16" by (simp add: b_def)
  show ub: "uuid_bytes u = Inr b"
    using assms(1,2) by (simp add: uuid_bytes_def to_bytes_def b_def)
  show "UUID_to_row_binary u dest = Inr (dest @ rev (take 8 b) @ rev (drop 8 b))"
    by (simp add: UUID_to_row_binary_def ub)
  have int_back: "from_bytes b big = uuid_int u"
    using assms(1,2) by (simp add: from_bytes_def b_def from_bytes_little_to_bytes_little)
  have same: "\<lparr>uuid_int = uuid_int u, is_safe = unknown\<rparr> = u\<lparr>is_safe := unknown\<rparr>"
    by (cases u) simp
  have "UUID_from_row_binary (dest @ rev (take 8 b) @ rev (drop 8 b) @ rest) (int (length dest))
      = Inr (\<lparr>uuid_int = from_bytes (take 8 b @ drop 8 b) big, is_safe = unknown\<rparr>,
             int (length dest) + 16)"
    by (rule UUID_from_row_binary_halves) (simp_all add: len)
  then show "UUID_from_row_binary (dest @ rev (take 8 b) @ rev (drop 8 b) @ rest)
        (int (length dest))
      = Inr (u\<lparr>is_safe := unknown\<rparr>, int (length dest) + 16)"
    by (simp add: int_back same)
qed

text \<open>
  Claim C3. The row-oriented UUID transform is self-inverse. For every identifier (an integer
  of 128 bits), the encoder appends the two 8-byte halves of its standard-order bytes, each
  half reversed, the high half first; decoding these wire bytes, wherever they stand in a
  buffer, gives back the identifier and moves the position by 16.
\<close>

theorem UUID_row_binary_self_inverse:
  assumes "0 \<le> uuid_int u" and "uuid_int u < 2 ^ 128"
  shows "\<exists>b. uuid_bytes u = Inr b \<and> length b = 16 \<and>
           UUID_to_row_binary u dest = Inr (dest @ rev (take 8 b) @ rev (drop 8 b)) \<and>
           UUID_from_row_binary (dest @ rev (take 8 b) @ rev (drop 8 b) @ rest) (int (length dest))
             = Inr (u\<lparr>is_safe := unknown\<rparr>, int (length dest) + 16)"
  using UUID_encode_then_decode [OF assms] by blast

theorem UUID_row_binary_self_inverse_witness:
  "0 \<le> uuid_int example_uuid \<and> uuid_int example_uuid < 2 ^ 128 \<and>
   uuid_bytes example_uuid =
     Inr [0x00, 0x11, 0x22, 0x33, 0x44, 0x55, 0x66, 0x77, 0x88, 0x99, 0xaa, 0xbb, 0xcc, 0xdd, 0xee, 0xff] \<and>
   UUID_to_row_binary example_uuid [] =
     Inr [0x77, 0x66, 0x55, 0x44, 0x33, 0x22, 0x11, 0x00, 0xff, 0xee, 0xdd, 0xcc, 0xbb, 0xaa, 0x99, 0x88] \<and>
   UUID_from_row_binary
     [0x77, 0x66, 0x55, 0x44, 0x33, 0x22, 0x11, 0x00, 0xff, 0xee, 0xdd, 0xcc, 0xbb, 0xaa, 0x99, 0x88] 0
     = Inr (example_uuid, 16)"
proof -
  have r: "0 \<le> uuid_int example_uuid" "uuid_int example_uuid < 2 ^ 128"
    by (simp_all add: example_uuid_def)
  have b: "uuid_bytes example_uuid =
     Inr [0x00, 0x11, 0x22, 0x33, 0x44, 0x55, 0x66, 0x77, 0x88, 0x99, 0xaa, 0xbb, 0xcc, 0xdd, 0xee, 0xff]"
    by code_simp
  have s: "example_uuid\<lparr>is_safe := unknown\<rparr> = example_uuid"
    by (simp add: example_uuid_def)
  from UUID_row_binary_self_inverse [OF r, of "[]" "[]"] b r s show ?thesis
    by auto
qed

lemma push_bit_64_OR:
  fixes h l :: int
  assumes "0 \<le> l" "l < 2 ^ 64"
  shows "push_bit 64 h OR l = h * 2 ^ 64 + l"
proof -
  have "push_bit 64 h OR l = concat_bit 64 l h"
    using assms by (simp add: concat_bit_def take_bit_int_eq_self or.commute)
  also have "\<dots> = take_bit 64 l + push_bit 64 h"
    by (rule concat_bit_eq)
  finally show ?thesis
    using assms by (simp add: take_bit_int_eq_self push_bit_eq_mult)
qed

lemma le_word64_at_take:
  "0 \<le> p \<Longrightarrow> le_word64_at source p = from_bytes_little (take 8 (drop (nat p) source))"
  by (simp add: le_word64_at_def from_bytes_def py_slice_nonneg)

lemma le_word64_at_range:
  assumes "0 \<le> p"
  shows "0 \<le> le_word64_at source p \<and> le_word64_at source p < 2 ^ 64"
proof -
  let ?s = "take 8 (drop (nat p) source)"
  have "length ?s \<le> 8" by simp
  then have "(256::int) ^ length ?s \<le> 256 ^ 8"
    by (intro power_increasing) simp_all
  with from_bytes_little_range [of ?s] show ?thesis
    using assms by (simp add: le_word64_at_take)
qed

lemma UUID_from_row_binary_words:
  assumes "0 \<le> loc" "loc + 16 \<le> int (length source)"
  shows "UUID_from_row_binary source loc
       = Inr (\<lparr>uuid_int = le_word64_at source loc * 2 ^ 64 + le_word64_at source (loc + 8),
               is_safe = unknown\<rparr>, loc + 16)"
proof -
  let ?H = "py_slice source loc (loc + 8)" and ?L = "py_slice source (loc + 8) (loc + 16)"
  have lh: "length ?H = 8" and ll: "length ?L = 8"
    using assms by (simp_all add: py_slice_nonneg)
  have th: "to_bytes (from_bytes_little ?H) 8 big = Inr (rev ?H)"
    using to_bytes_big_from_bytes [of "rev ?H" 8] lh by simp
  have tl: "to_bytes (from_bytes_little ?L) 8 big = Inr (rev ?L)"
    using to_bytes_big_from_bytes [of "rev ?L" 8] ll by simp
  have v: "from_bytes_little (?L @ ?H) = from_bytes_little ?H * 2 ^ 64 + from_bytes_little ?L"
    by (simp add: from_bytes_little_append ll)
  have hw: "le_word64_at source loc = from_bytes_little ?H"
    by (simp add: le_word64_at_def from_bytes_def)
  have e: "loc + 8 + 8 = loc + 16" by simp
  have lw: "le_word64_at source (loc + 8) = from_bytes_little ?L"
    unfolding le_word64_at_def from_bytes_def e by simp
  show ?thesis
    unfolding hw lw
    by (simp add: UUID_from_row_binary_def from_bytes_def th tl PyUUID_bytes_def lh ll v)
qed

lemma unpack_from_Q_words:
  assumes "0 \<le> loc" "0 \<le> cnt" "loc + 8 * cnt \<le> int (length source)"
  shows "unpack_from_Q cnt source loc
       = Inr (map (\<lambda>i. le_word64_at source (loc + 8 * int i)) [0..<nat cnt])"
proof -
  have "from_bytes_little (take 8 (drop (nat loc + 8 * i) source))
      = le_word64_at source (loc + 8 * int i)" for i
    using assms(1) by (simp add: le_word64_at_take nat_add_distrib nat_mult_distrib)
  then show ?thesis
    using assms by (simp add: unpack_from_Q_def Let_def)
qed

lemma UUID_from_native_column:
  assumes "0 \<le> loc" "0 \<le> num_rows" "loc + 16 * num_rows \<le> int (length source)"
  shows "UUID_from_native source loc num_rows must_swap
       = Inr (map (\<lambda>ix. bulk_uuid_at source (loc + 16 * int ix)) [0..<nat num_rows],
              loc + 16 * num_rows)"
proof -
  have u: "unpack_from_Q (num_rows * 2) source loc
      = Inr (map (\<lambda>i. le_word64_at source (loc + 8 * int i)) [0..<nat (num_rows * 2)])"
    using assms by (intro unpack_from_Q_words) simp_all
  have "ix < nat num_rows \<Longrightarrow>
      map (\<lambda>i. le_word64_at source (loc + 8 * int i)) [0..<nat (num_rows * 2)] ! (2 * ix)
        = le_word64_at source (loc + 16 * int ix) \<and>
      map (\<lambda>i. le_word64_at source (loc + 8 * int i)) [0..<nat (num_rows * 2)] ! (2 * ix + 1)
        = le_word64_at source (loc + 16 * int ix + 8)" for ix
  proof -
    assume a: "ix < nat num_rows"
    then have b: "2 * ix < nat (num_rows * 2)" "2 * ix + 1 < nat (num_rows * 2)"
      by linarith+
    show ?thesis
      using b by (simp add: algebra_simps)
  qed
  then show ?thesis
    by (simp add: UUID_from_native_def u bulk_uuid_at_def Let_def mult.commute)
qed

lemma UUID_rows_sequential_column:
  assumes "0 \<le> loc" "loc + 16 * int k \<le> int (length source)"
  shows "UUID_rows_sequential source loc k
       = Inr (map (\<lambda>ix. (bulk_uuid_at source (loc + 16 * int ix))\<lparr>is_safe := unknown\<rparr>) [0..<k],
              loc + 16 * int k)"
  using assms
proof (induction k arbitrary: loc)
  case 0
  show ?case by simp
next
  case (Suc k)
  have row: "UUID_from_row_binary source loc
      = Inr ((bulk_uuid_at source loc)\<lparr>is_safe := unknown\<rparr>, loc + 16)"
    using Suc.prems le_word64_at_range [of "loc + 8" source]
    by (simp add: UUID_from_row_binary_words bulk_uuid_at_def push_bit_64_OR)
  have rest: "UUID_rows_sequential source (loc + 16) k
      = Inr (map (\<lambda>ix. (bulk_uuid_at source (loc + 16 + 16 * int ix))\<lparr>is_safe := unknown\<rparr>) [0..<k],
             loc + 16 + 16 * int k)"
    using Suc.prems by (intro Suc.IH) simp_all
  have shift: "map (\<lambda>ix. (bulk_uuid_at source (loc + 16 * int ix))\<lparr>is_safe := unknown\<rparr>) [0..<Suc k]
      = (bulk_uuid_at source loc)\<lparr>is_safe := unknown\<rparr>
        # map (\<lambda>ix. (bulk_uuid_at source (loc + 16 + 16 * int ix))\<lparr>is_safe := unknown\<rparr>) [0..<k]"
    unfolding upt_conv_Cons [OF zero_less_Suc] map_Suc_upt [symmetric]
    by (simp add: comp_def algebra_simps)
  show ?case
    unfolding shift by (simp add: row rest)
qed

text \<open>
  Claim C4. In a buffer holding \<open>num_rows\<close> UUID wire values from \<open>loc\<close> on, whatever
  the byte-swap flag, the bulk decode returns \<open>num_rows\<close> identifiers and the position
  \<open>loc + 16 * num_rows\<close>; the integer of the identifier of row \<open>ix\<close> is
  \<open>high << 64 | low\<close> for the two little-endian 64-bit words of that row, and it equals
  (under \<open>UUID.__eq__\<close>) the identifier that the row-oriented decode, applied row after row
  to the same bytes, returns.
\<close>

theorem UUID_from_native_refines_rows:
  assumes "0 \<le> loc" and "0 \<le> num_rows" and "loc + 16 * num_rows \<le> int (length source)"
  shows "\<exists>column rows.
           UUID_from_native source loc num_rows must_swap = Inr (column, loc + 16 * num_rows) \<and>
           UUID_rows_sequential source loc (nat num_rows) = Inr (rows, loc + 16 * num_rows) \<and>
           length column = nat num_rows \<and>
           list_all2 uuid_eq column rows \<and>
           (\<forall>ix<nat num_rows.
              uuid_int (column ! ix)
                = push_bit 64 (le_word64_at source (loc + 16 * int ix))
                  OR le_word64_at source (loc + 16 * int ix + 8))"
proof -
  let ?col = "map (\<lambda>ix. bulk_uuid_at source (loc + 16 * int ix)) [0..<nat num_rows]"
  let ?rows = "map (\<lambda>ix. (bulk_uuid_at source (loc + 16 * int ix))\<lparr>is_safe := unknown\<rparr>)
                 [0..<nat num_rows]"
  have a: "UUID_from_native source loc num_rows must_swap = Inr (?col, loc + 16 * num_rows)"
    using assms by (rule UUID_from_native_column)
  have b: "UUID_rows_sequential source loc (nat num_rows) = Inr (?rows, loc + 16 * num_rows)"
    using UUID_rows_sequential_column [of loc "nat num_rows" source] assms by simp
  have c: "length ?col = nat num_rows" by simp
  have d: "list_all2 uuid_eq ?col ?rows"
    by (simp add: list_all2_conv_all_nth uuid_eq_def)
  have e: "\<forall>ix<nat num_rows. uuid_int (?col ! ix)
      = push_bit 64 (le_word64_at source (loc + 16 * int ix))
        OR le_word64_at source (loc + 16 * int ix + 8)"
    by (simp add: bulk_uuid_at_def)
  from a b c d e show ?thesis by blast
qed

theorem UUID_from_native_refines_rows_witness:
  "(0::int) \<le> 1 \<and> (0::int) \<le> 2 \<and> 1 + 16 * 2 \<le> int (length two_uuid_buffer) \<and>
   UUID_from_native two_uuid_buffer 1 2 False =
     Inr ([\<lparr>uuid_int = 0x00112233445566778899aabbccddeeff, is_safe = unsafe\<rparr>,
           \<lparr>uuid_int = 0x00000000000000010000000000000002, is_safe = unsafe\<rparr>], 33) \<and>
   UUID_rows_sequential two_uuid_buffer 1 2 =
     Inr ([\<lparr>uuid_int = 0x00112233445566778899aabbccddeeff, is_safe = unknown\<rparr>,
           \<lparr>uuid_int = 0x00000000000000010000000000000002, is_safe = unknown\<rparr>], 33)"
proof -
  have h: "(0::int) \<le> 1" "(0::int) \<le> 2" "1 + 16 * 2 \<le> int (length two_uuid_buffer)"
    by (simp_all add: two_uuid_buffer_def)
  have v: "UUID_from_native two_uuid_buffer 1 2 False =
     Inr ([\<lparr>uuid_int = 0x00112233445566778899aabbccddeeff, is_safe = unsafe\<rparr>,
           \<lparr>uuid_int = 0x00000000000000010000000000000002, is_safe = unsafe\<rparr>], 33)"
    by code_simp
  have r: "UUID_rows_sequential two_uuid_buffer 1 2 =
     Inr ([\<lparr>uuid_int = 0x00112233445566778899aabbccddeeff, is_safe = unknown\<rparr>,
           \<lparr>uuid_int = 0x00000000000000010000000000000002, is_safe = unknown\<rparr>], 33)"
    by code_simp
  from UUID_from_native_refines_rows [OF h, of False] v r h show ?thesis
    by simp
qed

section \<open>Short buffers\<close>

lemma slice_index_step: "slice_index n (i + int k) \<le> slice_index n i + k"
  unfolding slice_index_def by (cases "i < 0"; cases "i + int k < 0"; simp; linarith)

lemma py_slice_length_le: "length (py_slice xs i (i + int k)) \<le> k"
  using slice_index_step [of "length xs" i k]
  by (simp add: py_slice_def Let_def)

lemma le_word64_at_bounds:
  "0 \<le> le_word64_at source p \<and> le_word64_at source p < 2 ^ 64"
proof -
  let ?s = "py_slice source p (p + 8)"
  have "length ?s \<le> 8"
    using py_slice_length_le [of source p 8] by simp
  then have "(256::int) ^ length ?s \<le> 256 ^ 8"
    by (intro power_increasing) simp_all
  with from_bytes_little_range [of ?s] show ?thesis
    by (simp add: le_word64_at_def from_bytes_def)
qed

lemma UUID_from_row_binary_any_buffer:
  "UUID_from_row_binary source loc
     = Inr (\<lparr>uuid_int = le_word64_at source loc * 2 ^ 64 + le_word64_at source (loc + 8),
             is_safe = unknown\<rparr>, loc + 16)"
proof -
  define h where "h = le_word64_at source loc"
  define l where "l = le_word64_at source (loc + 8)"
  have hb: "0 \<le> h" "h < 2 ^ 64" and lb: "0 \<le> l" "l < 2 ^ 64"
    using le_word64_at_bounds [of source loc] le_word64_at_bounds [of source "loc + 8"]
    by (simp_all add: h_def l_def)
  have e: "loc + 8 + 8 = loc + 16" by simp
  have ih: "from_bytes (py_slice source loc (loc + 8)) little = h"
    by (simp add: h_def le_word64_at_def)
  have il: "from_bytes (py_slice source (loc + 8) (loc + 16)) little = l"
    unfolding l_def le_word64_at_def e ..
  have th: "to_bytes h 8 big = Inr (rev (to_bytes_little 8 h))"
    using hb by (simp add: to_bytes_def)
  have tl: "to_bytes l 8 big = Inr (rev (to_bytes_little 8 l))"
    using lb by (simp add: to_bytes_def)
  have v: "from_bytes (rev (to_bytes_little 8 h) @ rev (to_bytes_little 8 l)) big = h * 2 ^ 64 + l"
    using hb lb
    by (simp add: from_bytes_def from_bytes_little_append from_bytes_little_to_bytes_little)
  have p: "PyUUID_bytes (rev (to_bytes_little 8 h) @ rev (to_bytes_little 8 l))
      = Inr \<lparr>uuid_int = h * 2 ^ 64 + l, is_safe = unknown\<rparr>"
    unfolding PyUUID_bytes_def v by simp
  show ?thesis
    unfolding UUID_from_row_binary_def ih il Let_def th tl h_def [symmetric] l_def [symmetric]
    by (simp add: p)
qed

lemma unpack_from_Q_short:
  assumes "0 \<le> loc" "0 \<le> cnt" "int (length source) < loc + 8 * cnt"
  shows "unpack_from_Q cnt source loc = Inl StructError"
  using assms by (simp add: unpack_from_Q_def Let_def)

text \<open>
  Claim C9, as amended. The row-oriented decoders of the UUID and of the fixed-width string
  codec do not detect a short buffer. At any position of any buffer the UUID decode returns
  the identifier built from the bytes that are there (an absent byte counts as zero) and
  the position plus 16; the fixed-width string decode, under the raw strategy, returns the
  slice, which is shorter than \<open>size\<close> when the buffer ends early, and the position plus
  \<open>size\<close>. The bulk decode of the UUID codec, by contrast, rejects a buffer that is too
  short for \<open>num_rows\<close> values, with the error of \<open>struct.unpack_from\<close>.
\<close>

theorem row_decode_tolerates_short_buffer:
  "UUID_from_row_binary source loc
     = Inr (\<lparr>uuid_int = le_word64_at source loc * 2 ^ 64 + le_word64_at source (loc + 8),
             is_safe = unknown\<rparr>, loc + 16) \<and>
   FixedString_from_row_binary codecs
       \<lparr>cls = fixed_string_format ''binary'' encoding encoding_error c, size = n\<rparr> source loc
     = Inr (Bytes (py_slice source loc (loc + int n)), loc + int n) \<and>
   length (py_slice source loc (loc + int n)) \<le> n \<and>
   (0 \<le> loc \<and> 0 \<le> num_rows \<and> int (length source) < loc + 16 * num_rows \<longrightarrow>
      UUID_from_native source loc num_rows must_swap = Inl StructError)"
proof -
  have a: "FixedString_from_row_binary codecs
       \<lparr>cls = fixed_string_format ''binary'' encoding encoding_error c, size = n\<rparr> source loc
     = Inr (Bytes (py_slice source loc (loc + int n)), loc + int n)"
    by (simp add: FixedString_from_row_binary_def call_transform_def fixed_string_format_def
        passed_args_def parameters_def)
  have b: "0 \<le> loc \<and> 0 \<le> num_rows \<and> int (length source) < loc + 16 * num_rows \<longrightarrow>
      UUID_from_native source loc num_rows must_swap = Inl StructError"
    by (simp add: UUID_from_native_def unpack_from_Q_short)
  from UUID_from_row_binary_any_buffer [of source loc] a b py_slice_length_le [of source loc n]
  show ?thesis by blast
qed

theorem row_decode_tolerates_short_buffer_witness:
  "UUID_from_row_binary [] 0 = Inr (\<lparr>uuid_int = 0, is_safe = unknown\<rparr>, 16) \<and>
   FixedString_from_row_binary ascii_codecs
       \<lparr>cls = fixed_string_format ''binary'' ''ascii'' ''hex'' FixedString_default, size = 4\<rparr> [] 0
     = Inr (Bytes [], 4) \<and>
   (0::int) \<le> 0 \<and> (0::int) \<le> 1 \<and> int (length ([] :: bytes)) < 0 + 16 * 1 \<and>
   UUID_from_native [] 0 1 False = Inl StructError"
proof -
  have w: "le_word64_at [] 0 = 0" "le_word64_at [] (0 + 8) = 0" "py_slice ([] :: bytes) 0 (0 + int 4) = []"
    by (simp_all add: le_word64_at_def from_bytes_def py_slice_def)
  from row_decode_tolerates_short_buffer
    [of "[]" 0 ascii_codecs "''ascii''" "''hex''" FixedString_default 4 1 False]
  show ?thesis unfolding w by simp
qed

text \<open>
  The claim as stated fails: in a buffer of one byte the UUID decode at position 0 returns an
  identifier, and the decode of a fixed-width string of size 4 returns the one byte.
\<close>

theorem short_buffer_not_rejected:
  "UUID_from_row_binary [0x01] 0
     = Inr (\<lparr>uuid_int = 0x00000000000000010000000000000000, is_safe = unknown\<rparr>, 16) \<and>
   FixedString_from_row_binary ascii_codecs \<lparr>cls = FixedString_default, size = 4\<rparr> [0x61] 0
     = Inr (Bytes [0x61], 4)"
  by code_simp

section \<open>The null codec\<close>

text \<open>
  Claim C7 at the input where the code departs from it. The decode of the null codec,
  called with a buffer and a position as every decoder is, raises a TypeError for every
  buffer and position: the static method declares \<open>self\<close> as a first parameter and is one
  argument short. Only a call with a third, leading argument returns no value and the
  position unchanged. The encode does what the claim says: it leaves the output buffer as
  it is, for any value.
\<close>

theorem Nothing_from_row_binary_one_argument_short:
  "Nothing_from_row_binary source loc = Inl TypeError \<and>
   Nothing_from_row_binary_function [self, Buffer source, Position loc]
     = Inr (None, Position loc) \<and>
   Nothing_to_row_binary self' v dest = dest"
  by (simp add: Nothing_from_row_binary_def Nothing_from_row_binary_function_def
      Nothing_to_row_binary_def)

section \<open>The fixed-width string codec\<close>

text \<open>
  Claim C8 at the input where the code departs from it. With the decode-as-text strategy
  and an error policy other than \<open>hex\<close>, \<open>_encode_error\<close> is the class method
  \<open>lambda cls: '<binary data>'\<close>; the handler calls it with \<open>(cls, value)\<close>, so a slice that
  is not valid text ends in a TypeError, not in the fallback value. With the policy \<open>hex\<close>
  the same slice decodes to its hexadecimal rendering.
\<close>

theorem FixedString_decode_fallback:
  "FixedString_from_row_binary ascii_codecs
       \<lparr>cls = fixed_string_format ''decode'' ''ascii'' ''binary'' FixedString_default, size = 1\<rparr>
       [0xff] 0
     = Inl TypeError \<and>
   FixedString_from_row_binary ascii_codecs
       \<lparr>cls = fixed_string_format ''decode'' ''ascii'' ''hex'' FixedString_default, size = 1\<rparr>
       [0xff] 0
     = Inr (Str ''ff'', 1)"
  by code_simp

lemma concat_chunks:
  "concat (map (\<lambda>ix. take sz (drop (a + ix * sz) xs)) [0..<n]) = take (n * sz) (drop a xs)"
proof (induction n)
  case 0
  show ?case by simp
next
  case (Suc n)
  have "take (n * sz) (drop a xs) @ take sz (drop (a + n * sz) xs)
      = take (n * sz + sz) (drop a xs)"
    using take_add [of "n * sz" sz "drop a xs"] by (simp add: add.commute)
  with Suc show ?case by (simp add: add.commute)
qed

lemma FixedString_slice_in_range:
  assumes "0 \<le> loc" "loc + int sz * int n \<le> int (length source)" "ix < n"
  shows "py_slice source (loc + int ix * int sz) (loc + int ix * int sz + int sz)
           = take sz (drop (nat loc + ix * sz) source)"
    and "length (take sz (drop (nat loc + ix * sz) source)) = sz"
proof -
  show "py_slice source (loc + int ix * int sz) (loc + int ix * int sz + int sz)
           = take sz (drop (nat loc + ix * sz) source)"
    using assms(1) by (simp add: py_slice_nonneg nat_add_distrib nat_mult_distrib)
  have "Suc ix \<le> n" using assms(3) by simp
  then have "Suc ix * sz \<le> n * sz" by (rule mult_le_mono1)
  then have "ix * sz + sz \<le> n * sz" by simp
  then have le: "int (ix * sz + sz) \<le> int (n * sz)" by (rule of_nat_mono)
  have "int (nat loc + ix * sz + sz) = loc + int (ix * sz + sz)"
    using assms(1) by simp
  also have "\<dots> \<le> loc + int (n * sz)" using le by simp
  also have "\<dots> \<le> int (length source)" using assms(2) by (simp add: mult.commute)
  finally have "nat loc + ix * sz + sz \<le> length source" by (simp only: of_nat_le_iff)
  then show "length (take sz (drop (nat loc + ix * sz) source)) = sz" by simp
qed

text \<open>
  Claim C10. Whatever output strategy \<open>fixed_string_format\<close> has configured, the bulk
  decode of the fixed-width string codec returns the raw slices
  \<open>source[loc + ix * size : loc + ix * size + size]\<close>, one per row, and the position
  \<open>loc + size * num_rows\<close>: \<open>_transform\<close> is applied by the row-oriented decode only.
  When the buffer holds the \<open>num_rows\<close> values, every slice has exactly \<open>size\<close> bytes and
  the slices, one after the other, are the bytes from \<open>loc\<close> to the new position.
\<close>

theorem FixedString_from_native_raw_slices:
  "FixedString_from_native
       \<lparr>cls = fixed_string_format method encoding encoding_error c, size = sz\<rparr>
       source loc num_rows must_swap
     = (map (\<lambda>ix. py_slice source (loc + int ix * int sz) (loc + int ix * int sz + int sz))
          [0..<nat num_rows],
        loc + int sz * num_rows) \<and>
   (0 \<le> loc \<and> 0 \<le> num_rows \<and> loc + int sz * num_rows \<le> int (length source) \<longrightarrow>
      list_all (\<lambda>bs. length bs = sz)
        (fst (FixedString_from_native
               \<lparr>cls = fixed_string_format method encoding encoding_error c, size = sz\<rparr>
               source loc num_rows must_swap)) \<and>
      concat (fst (FixedString_from_native
               \<lparr>cls = fixed_string_format method encoding encoding_error c, size = sz\<rparr>
               source loc num_rows must_swap))
        = py_slice source loc (loc + int sz * num_rows))"
proof -
  let ?col = "map (\<lambda>ix. py_slice source (loc + int ix * int sz) (loc + int ix * int sz + int sz))
          [0..<nat num_rows]"
  have eq: "FixedString_from_native
       \<lparr>cls = fixed_string_format method encoding encoding_error c, size = sz\<rparr>
       source loc num_rows must_swap = (?col, loc + int sz * num_rows)"
    by (simp add: FixedString_from_native_def Let_def)
  have "list_all (\<lambda>bs. length bs = sz) ?col \<and> concat ?col = py_slice source loc (loc + int sz * num_rows)"
    if h: "0 \<le> loc" "0 \<le> num_rows" "loc + int sz * num_rows \<le> int (length source)"
  proof -
    have b: "loc + int sz * int (nat num_rows) \<le> int (length source)"
      using h by simp
    have col: "?col = map (\<lambda>ix. take sz (drop (nat loc + ix * sz) source)) [0..<nat num_rows]"
      using FixedString_slice_in_range(1) [OF h(1) b] by simp
    have len: "list_all (\<lambda>bs. length bs = sz) ?col"
      unfolding col list_all_iff using FixedString_slice_in_range(2) [OF h(1) b] by auto
    have "0 \<le> int sz * num_rows" using h(2) by simp
    then have "py_slice source loc (loc + int sz * num_rows)
        = take (nat num_rows * sz) (drop (nat loc) source)"
      using h by (simp add: py_slice_nonneg nat_mult_distrib mult.commute)
    then have "concat ?col = py_slice source loc (loc + int sz * num_rows)"
      unfolding col by (simp add: concat_chunks)
    with len show ?thesis by simp
  qed
  then show ?thesis unfolding eq by simp
qed

theorem FixedString_from_native_raw_slices_witness:
  "(0::int) \<le> 0 \<and> (0::int) \<le> 3 \<and> 0 + int 2 * 3 \<le> int (length abcdef) \<and>
   FixedString_from_native
       \<lparr>cls = fixed_string_format ''decode'' ''ascii'' ''hex'' FixedString_default, size = 2\<rparr>
       abcdef 0 3 False
     = ([[0x61, 0x62], [0x63, 0x64], [0x65, 0x66]], 6) \<and>
   concat [[0x61, 0x62], [0x63, 0x64], [0x65, 0x66]] = py_slice abcdef 0 (0 + int 2 * 3) \<and>
   FixedString_from_row_binary ascii_codecs
       \<lparr>cls = fixed_string_format ''decode'' ''ascii'' ''hex'' FixedString_default, size = 2\<rparr>
       abcdef 0
     = Inr (Str ''ab'', 2)"
proof -
  have h: "(0::int) \<le> 0 \<and> (0::int) \<le> 3 \<and> 0 + int 2 * 3 \<le> int (length abcdef)"
    by (simp add: abcdef_def)
  have v: "FixedString_from_native
       \<lparr>cls = fixed_string_format ''decode'' ''ascii'' ''hex'' FixedString_default, size = 2\<rparr>
       abcdef 0 3 False
     = ([[0x61, 0x62], [0x63, 0x64], [0x65, 0x66]], 6)"
    by code_simp
  have r: "FixedString_from_row_binary ascii_codecs
       \<lparr>cls = fixed_string_format ''decode'' ''ascii'' ''hex'' FixedString_default, size = 2\<rparr>
       abcdef 0
     = Inr (Str ''ab'', 2)"
    by code_simp
  from FixedString_from_native_raw_slices
    [of "''decode''" "''ascii''" "''hex''" FixedString_default 2 abcdef 0 3 False] h
  have "concat (fst (FixedString_from_native
       \<lparr>cls = fixed_string_format ''decode'' ''ascii'' ''hex'' FixedString_default, size = 2\<rparr>
       abcdef 0 3 False)) = py_slice abcdef 0 (0 + int 2 * 3)"
    by blast
  then show ?thesis using h r unfolding v by simp
qed

section \<open>The map codec\<close>

text \<open>
  Claim C2 at an input where the code departs from it. For the mapping \<open>{1: 10, 2: 20}\<close>
  of a map over one-byte codecs the claim asks for the pair count followed by
  \<open>1, 10, 2, 20\<close>, which is what the decoder of the same class reads back. The encoder
  returns \<open>1, 1, 2, 2\<close>: no length prefix, and each key where its value should be.
\<close>

theorem Map_to_row_binary_drops_values:
  "Map_to_row_binary byte_Map [(1, 10), (2, 20)] = Inr [1, 1, 2, 2] \<and>
   Map_to_row_binary byte_Map [(1, 10), (2, 20)] \<noteq> Inr (to_leb128_model 2 @ [1, 10, 2, 20]) \<and>
   Map_from_row_binary read_leb128_model byte_Map (to_leb128_model 2 @ [1, 10, 2, 20]) 0
     = Inr ([(1, 10), (2, 20)], 5)"
  by code_simp

section \<open>The array codec: construction\<close>

lemma decode_values_error:
  "decode_values conv source n loc = Inl e \<Longrightarrow> \<exists>l. conv source l = Inl e"
proof (induction n arbitrary: loc)
  case 0
  then show ?case by simp
next
  case (Suc n)
  then show ?case
    by (auto split: sum.splits prod.splits)
qed

lemma Array_rows_error:
  "Array_rows et source must_swap last_offset loc offsets = Inl e \<Longrightarrow>
     (\<exists>l c. from_native et source l c must_swap = Inl e) \<or>
     (\<exists>conv_py vs. to_python et = Some conv_py \<and> conv_py vs = Inl e)"
proof (induction offsets arbitrary: last_offset loc)
  case Nil
  then show ?case by simp
next
  case (Cons offset offsets)
  show ?case
  proof (cases "from_native et source loc (offset - last_offset) must_swap")
    case (Inl e')
    with Cons.prems show ?thesis by (auto simp: Let_def)
  next
    case (Inr r)
    obtain val_list loc' where r: "r = (val_list, loc')" by (cases r)
    show ?thesis
    proof (cases "case to_python et of None \<Rightarrow> Inr val_list | Some conv_py \<Rightarrow> conv_py val_list")
      case (Inl e')
      with Cons.prems Inr r have "e' = e" by (simp add: Let_def)
      with Inl show ?thesis by (auto split: option.splits)
    next
      case py: (Inr val_list')
      with Cons.prems Inr r
      have "Array_rows et source must_swap offset loc' offsets = Inl e"
        by (simp add: Let_def split: sum.splits prod.splits)
      then show ?thesis by (rule Cons.IH)
    qed
  qed
qed

text \<open>
  Claim C5. When the inherited initialiser succeeds and the registry resolves the first
  parameter of the type, the constructor fails with the configuration error
  \<open>DriverError("Nested arrays not supported")\<close> if the element codec is an array, and
  returns the array codec otherwise. The decoders of the array codec raise nothing of their
  own but the ValueError of \<open>frombytes\<close>: any other error of a decode is an error of the
  length-prefix reader, of the element codec's decoder or of its \<open>to_python\<close>.
\<close>

theorem Array_init_rejects_nested_array:
  assumes "super_init type_def = Inr ()"
    and "td_values type_def = name # names"
    and "get_from_name name = Inr et"
  shows "(is_Array et \<longrightarrow>
            Array_init super_init get_from_name type_def
              = Inl (DriverError ''Nested arrays not supported'')) \<and>
         (\<not> is_Array et \<longrightarrow>
            Array_init super_init get_from_name type_def
              = Inr \<lparr>element_type = et, name_suffix = td_arg_str type_def\<rparr>) \<and>
         (Array_from_row_binary read_leb128 self source loc = Inl e \<longrightarrow>
            read_leb128 source loc = Inl e \<or>
            (\<exists>l. from_row_binary (element_type self) source l = Inl e)) \<and>
         (Array_from_native host self source loc num_rows must_swap = Inl e \<longrightarrow>
            e = ValueError \<or>
            (\<exists>l c. from_native (element_type self) source l c must_swap = Inl e) \<or>
            (\<exists>conv_py vs. to_python (element_type self) = Some conv_py \<and> conv_py vs = Inl e))"
proof -
  have a: "is_Array et \<longrightarrow>
            Array_init super_init get_from_name type_def
              = Inl (DriverError ''Nested arrays not supported'')"
    using assms by (simp add: Array_init_def)
  have b: "\<not> is_Array et \<longrightarrow>
            Array_init super_init get_from_name type_def
              = Inr \<lparr>element_type = et, name_suffix = td_arg_str type_def\<rparr>"
    using assms by (simp add: Array_init_def)
  have c: "Array_from_row_binary read_leb128 self source loc = Inl e \<longrightarrow>
            read_leb128 source loc = Inl e \<or>
            (\<exists>l. from_row_binary (element_type self) source l = Inl e)"
    by (auto simp: Array_from_row_binary_def split: sum.splits prod.splits
        dest: decode_values_error)
  have d: "Array_from_native host self source loc num_rows must_swap = Inl e \<longrightarrow>
            e = ValueError \<or>
            (\<exists>l c. from_native (element_type self) source l c must_swap = Inl e) \<or>
            (\<exists>conv_py vs. to_python (element_type self) = Some conv_py \<and> conv_py vs = Inl e)"
  proof
    assume f: "Array_from_native host self source loc num_rows must_swap = Inl e"
    show "e = ValueError \<or>
            (\<exists>l c. from_native (element_type self) source l c must_swap = Inl e) \<or>
            (\<exists>conv_py vs. to_python (element_type self) = Some conv_py \<and> conv_py vs = Inl e)"
    proof (cases "array_Q_frombytes host (py_slice source loc (loc + num_rows * 8))")
      case (Inl e')
      then have "e' = ValueError"
        by (auto simp: array_Q_frombytes_def split: if_splits)
      with f Inl show ?thesis by (simp add: Array_from_native_def Let_def)
    next
      case (Inr offsets)
      with f have "Array_rows (element_type self) source must_swap 0 (loc + num_rows * 8)
            (if must_swap then map byteswap_Q offsets else offsets) = Inl e"
        by (simp add: Array_from_native_def Let_def)
      from Array_rows_error [OF this] show ?thesis by blast
    qed
  qed
  from a b c d show ?thesis by blast
qed

theorem Array_init_rejects_nested_array_witness:
  "Array_init (\<lambda>type_def. Inr ()) uuid_registry
       \<lparr>td_values = [''Array(UUID)''], td_arg_str = ''(Array(UUID))''\<rparr>
     = Inl (DriverError ''Nested arrays not supported'') \<and>
   Array_init (\<lambda>type_def. Inr ()) uuid_registry
       \<lparr>td_values = [''UUID''], td_arg_str = ''(UUID)''\<rparr>
     = Inr \<lparr>element_type = UUID_type, name_suffix = ''(UUID)''\<rparr> \<and>
   Array_from_row_binary read_leb128_model \<lparr>element_type = UUID_type, name_suffix = ''(UUID)''\<rparr>
       [] 0 = Inl IndexError \<and>
   read_leb128_model [] 0 = Inl IndexError \<and>
   Array_from_native little \<lparr>element_type = UUID_type, name_suffix = ''(UUID)''\<rparr>
       [1, 0, 0, 0, 0, 0, 0, 0] 0 1 False = Inl StructError \<and>
   UUID_from_native [1, 0, 0, 0, 0, 0, 0, 0] 8 1 False = Inl StructError"
proof -
  have n: "uuid_registry ''Array(UUID)'' = Inr (UUID_type\<lparr>is_Array := True\<rparr>)"
    and u: "uuid_registry ''UUID'' = Inr UUID_type"
    by (simp_all add: uuid_registry_def)
  have fl: "is_Array (UUID_type\<lparr>is_Array := True\<rparr>)" "\<not> is_Array UUID_type"
    by (simp_all add: UUID_type_def)
  have r: "Array_from_row_binary read_leb128_model
       \<lparr>element_type = UUID_type, name_suffix = ''(UUID)''\<rparr> [] 0 = Inl IndexError"
     "read_leb128_model [] 0 = Inl IndexError"
    by (simp_all add: Array_from_row_binary_def read_leb128_model_def)
  have s: "UUID_from_native [1, 0, 0, 0, 0, 0, 0, 0] 8 1 False = Inl StructError"
    by (simp add: UUID_from_native_def unpack_from_Q_def)
  have b: "Array_from_native little \<lparr>element_type = UUID_type, name_suffix = ''(UUID)''\<rparr>
       [1, 0, 0, 0, 0, 0, 0, 0] 0 1 False = Inl StructError"
    by code_simp
  have x: "Array_init (\<lambda>type_def. Inr ()) uuid_registry
       \<lparr>td_values = [''Array(UUID)''], td_arg_str = ''(Array(UUID))''\<rparr>
     = Inl (DriverError ''Nested arrays not supported'')"
    using Array_init_rejects_nested_array
      [where super_init = "\<lambda>type_def. Inr ()" and get_from_name = uuid_registry
         and type_def = "\<lparr>td_values = [''Array(UUID)''], td_arg_str = ''(Array(UUID))''\<rparr>"
         and name = "''Array(UUID)''" and names = "[]"
         and et = "UUID_type\<lparr>is_Array := True\<rparr>", THEN conjunct1] n fl
    by simp
  have y: "Array_init (\<lambda>type_def. Inr ()) uuid_registry
       \<lparr>td_values = [''UUID''], td_arg_str = ''(UUID)''\<rparr>
     = Inr \<lparr>element_type = UUID_type, name_suffix = ''(UUID)''\<rparr>"
    using Array_init_rejects_nested_array
      [where super_init = "\<lambda>type_def. Inr ()" and get_from_name = uuid_registry
         and type_def = "\<lparr>td_values = [''UUID''], td_arg_str = ''(UUID)''\<rparr>"
         and name = "''UUID''" and names = "[]"
         and et = UUID_type, THEN conjunct2, THEN conjunct1] u fl
    by simp
  from x y r s b show ?thesis by simp
qed

section \<open>The array codec: bulk decode\<close>

lemma byteswap_Q_from_bytes:
  assumes "length c = 8"
  shows "byteswap_Q (from_bytes c host) = from_bytes c (opposite host)"
proof (cases host)
  case little
  have "to_bytes_little 8 (from_bytes_little c) = c"
    using to_bytes_little_from_bytes_little [of c] assms by simp
  then show ?thesis
    by (simp add: little byteswap_Q_def from_bytes_def opposite_def)
next
  case big
  have "to_bytes_little 8 (from_bytes_little (rev c)) = rev c"
    using to_bytes_little_from_bytes_little [of "rev c"] assms by simp
  then show ?thesis
    by (simp add: big byteswap_Q_def from_bytes_def opposite_def)
qed

lemma chunk_of_slice:
  assumes "i < n" "a + 8 * n \<le> length xs"
  shows "take 8 (drop (8 * i) (take (8 * n) (drop a xs))) = take 8 (drop (a + 8 * i) xs)"
    and "length (take 8 (drop (a + 8 * i) xs)) = 8"
proof -
  have "8 * i + 8 \<le> 8 * n" using assms(1) by simp
  then have m: "min 8 (8 * n - 8 * i) = 8" by simp
  show "take 8 (drop (8 * i) (take (8 * n) (drop a xs))) = take 8 (drop (a + 8 * i) xs)"
    by (simp add: drop_take m add.commute)
  show "length (take 8 (drop (a + 8 * i) xs)) = 8"
    using assms by simp
qed

lemma array_Q_frombytes_slice:
  assumes "0 \<le> loc" "0 \<le> num_rows" "loc + 8 * num_rows \<le> int (length source)"
  shows "array_Q_frombytes host (py_slice source loc (loc + num_rows * 8))
       = Inr (wire_offsets host False source loc (nat num_rows))"
proof -
  let ?n = "nat num_rows" and ?a = "nat loc"
  have b: "?a + 8 * ?n \<le> length source" using assms by linarith
  have s: "py_slice source loc (loc + num_rows * 8) = take (8 * ?n) (drop ?a source)"
    using assms by (simp add: py_slice_nonneg nat_mult_distrib mult.commute)
  have l: "length (take (8 * ?n) (drop ?a source)) = 8 * ?n"
    using b by simp
  have "map (\<lambda>i. from_bytes (take 8 (drop (8 * i) (take (8 * ?n) (drop ?a source)))) host) [0..<?n]
      = map (\<lambda>i. from_bytes (take 8 (drop (?a + 8 * i) source)) host) [0..<?n]"
    using chunk_of_slice(1) [OF _ b] by simp
  then show ?thesis
    unfolding s array_Q_frombytes_def l wire_offsets_def by simp
qed

lemma swapped_offsets:
  assumes "0 \<le> loc" "loc + 8 * int n \<le> int (length source)"
  shows "map byteswap_Q (wire_offsets host False source loc n) = wire_offsets host True source loc n"
proof -
  have b: "nat loc + 8 * n \<le> length source" using assms by linarith
  show ?thesis
    unfolding wire_offsets_def using chunk_of_slice(2) [OF _ b]
    by (simp add: byteswap_Q_from_bytes)
qed

lemma Array_rows_in_order:
  "Array_rows et source must_swap last_offset loc offsets
     = rows_in_order et source must_swap loc
         (map2 (\<lambda>offset previous. offset - previous) offsets (last_offset # offsets))"
proof (induction offsets arbitrary: last_offset loc)
  case Nil
  show ?case by simp
next
  case (Cons offset offsets)
  show ?case
    by (simp add: Let_def Cons.IH split: sum.splits prod.splits)
qed

lemma sum_differences:
  fixes offsets :: "int list"
  shows "sum_list (map2 (\<lambda>offset previous. offset - previous) offsets (p # offsets))
     = last (p # offsets) - p"
  by (induction offsets arbitrary: p) auto

lemma nth_differences:
  fixes offsets :: "int list"
  shows "i < length offsets \<Longrightarrow>
     map2 (\<lambda>offset previous. offset - previous) offsets (p # offsets) ! i
       = offsets ! i - (if i = 0 then p else offsets ! (i - 1))"
proof (induction offsets arbitrary: p i)
  case Nil
  then show ?case by simp
next
  case (Cons offset offsets)
  then show ?case by (cases i) (auto simp: nth_Cons')
qed

lemma differences_nonneg:
  fixes offsets :: "int list"
  shows "sorted (p # offsets) \<Longrightarrow>
     list_all (\<lambda>c. 0 \<le> c) (map2 (\<lambda>offset previous. offset - previous) offsets (p # offsets))"
  by (induction offsets arbitrary: p) auto

lemma rows_in_order_lengths:
  assumes "\<forall>l c vs l'. 0 \<le> c \<and> from_native et source l c must_swap = Inr (vs, l')
             \<longrightarrow> int (length vs) = c"
    and "to_python et = None"
    and "list_all (\<lambda>c. 0 \<le> c) cnts"
    and "rows_in_order et source must_swap loc cnts = Inr (column, loc')"
  shows "map (\<lambda>row. int (length row)) column = cnts"
  using assms(3,4)
proof (induction cnts arbitrary: loc column)
  case Nil
  then show ?case by simp
next
  case (Cons cnt cnts)
  from Cons.prems(2) obtain vs l1 where
    f: "from_native et source loc cnt must_swap = Inr (vs, l1)"
    by (auto split: sum.splits prod.splits)
  with Cons.prems(2) assms(2) obtain col where
    r: "rows_in_order et source must_swap l1 cnts = Inr (col, loc')" and c: "column = vs # col"
    by (auto split: sum.splits prod.splits)
  have "int (length vs) = cnt" using assms(1) f Cons.prems(1) by auto
  moreover have "map (\<lambda>row. int (length row)) col = cnts"
    using Cons.IH [OF _ r] Cons.prems(1) by simp
  ultimately show ?case by (simp add: c)
qed


text \<open>
  Claim C6. In a buffer holding the \<open>num_rows\<close> offset words from \<open>loc\<close> on, the bulk
  decode of the array codec reads these words as the cumulative offsets (in the other byte
  order when a swap is requested) and then decodes the rows in order: row \<open>i\<close> is one bulk
  decode of the element codec for \<open>offset[i] - offset[i-1]\<close> values (\<open>offset[-1] = 0\<close>),
  starting where the previous row stopped, the first one right after the offsets. The
  counts add up to the last offset. A row of count zero is the empty sequence and leaves
  the position where it is, when the element codec decodes zero values so. When the
  element codec returns as many values as it is asked for and the offsets do not decrease,
  row \<open>i\<close> of the result has exactly that many elements and the total is the last offset.
  The example: the boundaries \<open>0, 2, 2, 5\<close> of three rows, that is the initial 0 and the
  offset words \<open>2, 2, 5\<close>, give the counts \<open>2, 0, 3\<close>.
\<close>

theorem Array_from_native_rows:
  assumes "0 \<le> loc" and "0 \<le> num_rows" and "loc + 8 * num_rows \<le> int (length source)"
    and "offsets = wire_offsets host must_swap source loc (nat num_rows)"
  shows "Array_from_native host self source loc num_rows must_swap
           = rows_in_order (element_type self) source must_swap (loc + 8 * num_rows)
               (row_counts offsets) \<and>
         length offsets = nat num_rows \<and>
         (\<forall>i<length offsets.
            row_counts offsets ! i = offsets ! i - (if i = 0 then 0 else offsets ! (i - 1))) \<and>
         sum_list (row_counts offsets) = (if offsets = [] then 0 else last offsets) \<and>
         row_counts [2, 2, 5] = [2, 0, 3] \<and>
         (from_native (element_type self) source l 0 must_swap = Inr ([], l) \<and>
          to_python (element_type self) = None \<longrightarrow>
            rows_in_order (element_type self) source must_swap l (0 # cnts)
              = (case rows_in_order (element_type self) source must_swap l cnts of
                   Inl e \<Rightarrow> Inl e
                 | Inr (column, l') \<Rightarrow> Inr ([] # column, l'))) \<and>
         ((\<forall>l c vs l'. 0 \<le> c \<and> from_native (element_type self) source l c must_swap = Inr (vs, l')
              \<longrightarrow> int (length vs) = c) \<and>
          to_python (element_type self) = None \<and>
          sorted (0 # offsets) \<and>
          Array_from_native host self source loc num_rows must_swap = Inr (column, loc') \<longrightarrow>
            map (\<lambda>row. int (length row)) column = row_counts offsets \<and>
            (\<Sum>row\<leftarrow>column. int (length row)) = (if offsets = [] then 0 else last offsets))"
proof -
  let ?et = "element_type self"
  have b: "loc + 8 * int (nat num_rows) \<le> int (length source)" using assms by simp
  have raw: "array_Q_frombytes host (py_slice source loc (loc + num_rows * 8))
       = Inr (wire_offsets host False source loc (nat num_rows))"
    using assms(1-3) by (rule array_Q_frombytes_slice)
  have sw: "(if must_swap then map byteswap_Q (wire_offsets host False source loc (nat num_rows))
             else wire_offsets host False source loc (nat num_rows)) = offsets"
    using swapped_offsets [OF assms(1) b] by (simp add: assms(4))
  have A: "Array_from_native host self source loc num_rows must_swap
           = rows_in_order ?et source must_swap (loc + 8 * num_rows) (row_counts offsets)"
    unfolding Array_from_native_def Let_def raw
    by (simp add: sw Array_rows_in_order row_counts_def mult.commute)
  have B: "length offsets = nat num_rows"
    by (simp add: assms(4) wire_offsets_def)
  have C: "\<forall>i<length offsets.
            row_counts offsets ! i = offsets ! i - (if i = 0 then 0 else offsets ! (i - 1))"
    by (simp add: row_counts_def nth_differences)
  have D: "sum_list (row_counts offsets) = (if offsets = [] then 0 else last offsets)"
    unfolding row_counts_def sum_differences by simp
  have E: "row_counts [2, 2, 5] = [2, 0, 3]"
    by (simp add: row_counts_def)
  have F: "from_native ?et source l 0 must_swap = Inr ([], l) \<and> to_python ?et = None \<longrightarrow>
            rows_in_order ?et source must_swap l (0 # cnts)
              = (case rows_in_order ?et source must_swap l cnts of
                   Inl e \<Rightarrow> Inl e
                 | Inr (column, l') \<Rightarrow> Inr ([] # column, l'))"
    by simp
  have G: "map (\<lambda>row. int (length row)) column = row_counts offsets \<and>
            (\<Sum>row\<leftarrow>column. int (length row)) = (if offsets = [] then 0 else last offsets)"
    if h: "\<forall>l c vs l'. 0 \<le> c \<and> from_native ?et source l c must_swap = Inr (vs, l')
              \<longrightarrow> int (length vs) = c"
      "to_python ?et = None" "sorted (0 # offsets)"
      "Array_from_native host self source loc num_rows must_swap = Inr (column, loc')"
  proof -
    have nn: "list_all (\<lambda>c. 0 \<le> c) (row_counts offsets)"
      using h(3) unfolding row_counts_def by (rule differences_nonneg)
    have m: "map (\<lambda>row. int (length row)) column = row_counts offsets"
      using rows_in_order_lengths [OF h(1) h(2) nn] h(4) A by simp
    have "(\<Sum>row\<leftarrow>column. int (length row)) = sum_list (map (\<lambda>row. int (length row)) column)"
      by simp
    with m D show ?thesis by simp
  qed
  from A B C D E F G show ?thesis by blast
qed


theorem Array_from_native_rows_witness:
  "(0::int) \<le> 0 \<and> (0::int) \<le> 3 \<and> 0 + 8 * 3 \<le> int (length offsets_2_2_5_abcde) \<and>
   wire_offsets little False offsets_2_2_5_abcde 0 (nat 3) = [2, 2, 5] \<and>
   sorted (0 # [2, 2, 5 :: int]) \<and>
   to_python (element_type FixedString_1_array) = None \<and>
   from_native (element_type FixedString_1_array) offsets_2_2_5_abcde 26 0 False = Inr ([], 26) \<and>
   Array_from_native little FixedString_1_array offsets_2_2_5_abcde 0 3 False
     = Inr ([[Bytes [0x61], Bytes [0x62]], [], [Bytes [0x63], Bytes [0x64], Bytes [0x65]]], 29) \<and>
   map (\<lambda>row. int (length row))
       [[Bytes [0x61], Bytes [0x62]], [], [Bytes [0x63], Bytes [0x64], Bytes [0x65]]]
     = row_counts [2, 2, 5] \<and>
   (\<Sum>row\<leftarrow>[[Bytes [0x61], Bytes [0x62]], [], [Bytes [0x63], Bytes [0x64], Bytes [0x65]]].
      int (length row)) = 5"
proof -
  have h: "(0::int) \<le> 0" "(0::int) \<le> 3" "0 + 8 * 3 \<le> int (length offsets_2_2_5_abcde)"
    by (simp_all add: offsets_2_2_5_abcde_def)
  have o: "[2, 2, 5] = wire_offsets little False offsets_2_2_5_abcde 0 (nat 3)"
    by code_simp
  have s: "sorted (0 # [2, 2, 5 :: int])" by simp
  have p: "to_python (element_type FixedString_1_array) = None"
    by (simp add: FixedString_1_array_def FixedString_type_def)
  have z: "from_native (element_type FixedString_1_array) offsets_2_2_5_abcde 26 0 False
      = Inr ([], 26)"
    by (simp add: FixedString_1_array_def FixedString_type_def FixedString_from_native_def)
  have e: "\<forall>l c vs l'. 0 \<le> c \<and>
      from_native (element_type FixedString_1_array) offsets_2_2_5_abcde l c False = Inr (vs, l')
        \<longrightarrow> int (length vs) = c"
    by (auto simp: FixedString_1_array_def FixedString_type_def FixedString_from_native_def Let_def)
  have v: "Array_from_native little FixedString_1_array offsets_2_2_5_abcde 0 3 False
     = Inr ([[Bytes [0x61], Bytes [0x62]], [], [Bytes [0x63], Bytes [0x64], Bytes [0x65]]], 29)"
    by code_simp
  note t = Array_from_native_rows [OF h o, where self = FixedString_1_array
      and column = "[[Bytes [0x61], Bytes [0x62]], [], [Bytes [0x63], Bytes [0x64], Bytes [0x65]]]"
      and loc' = 29]
  from t e p s v
  have "map (\<lambda>row. int (length row))
       [[Bytes [0x61], Bytes [0x62]], [], [Bytes [0x63], Bytes [0x64], Bytes [0x65]]]
     = row_counts [2, 2, 5] \<and>
     (\<Sum>row\<leftarrow>[[Bytes [0x61], Bytes [0x62]], [], [Bytes [0x63], Bytes [0x64], Bytes [0x65]]].
        int (length row)) = (if [2, 2, 5 :: int] = [] then 0 else last [2, 2, 5])"
    by blast
  with h o [symmetric] s p z v show ?thesis by (simp add: row_counts_def)
qed

section \<open>Round trip of the row-oriented codecs\<close>




lemma uuid_wire_length [simp]: "length (uuid_wire u) = 16"
  by (simp add: uuid_wire_def Let_def)







lemma tuple_wire_Cons [simp]:
  "tuple_wire (w # ws) (v # vs) = w v @ tuple_wire ws vs"
  by (simp add: tuple_wire_def)

lemma tuple_wire_Nil [simp]: "tuple_wire [] vs = []" "tuple_wire ws [] = []"
  by (simp_all add: tuple_wire_def)










end
